theory Spec2Isabelle
  imports
    Complex_Main
    "HOL-Library.Multiset"
    "HOL-Library.Product_Lexorder"
    "HOL-Library.Option_ord"
    "HOL-Library.Char_ord"
    "HOL-Library.List_Lexorder"
begin

section \<open>Time, days and intervals\<close>

text \<open>
  A JavaScript \<open>Date\<close> is modelled by its \<open>getTime()\<close> value, an integer number of
  milliseconds on the local clock. The day string \<open>YYYY-MM-DD\<close> is modelled by the
  number of the day, so that \<open>new Date(dayStr + 'T00:00:00')\<close> is the first millisecond
  of that day and \<open>new Date(dayStr + 'T23:59:59')\<close> lies 86399 seconds later.
  Invalid dates (\<open>NaN\<close>) are outside the model.

  \<open>toLocalISOString\<close> prints \<open>YYYY-MM-DD HH:MM:SS\<close> with every field padded. The
  text is represented by the whole second it shows: on four-digit years two such texts
  compare (\<open>localeCompare\<close>) as these numbers do, and no such text is empty.
\<close>

type_synonym timestamp = int
type_synonym day = int
type_synonym interval = "timestamp \<times> timestamp"
type_synonym iso_time = int

definition dayStart :: "day \<Rightarrow> timestamp" where
  "dayStart dayStr = dayStr * 86400000"

definition dayEnd :: "day \<Rightarrow> timestamp" where
  "dayEnd dayStr = dayStr * 86400000 + 86399000"

definition toLocalISOString :: "timestamp \<Rightarrow> iso_time" where
  "toLocalISOString d = d div 1000"

text \<open>\<open>clampIntervalToDay([start, end], dayStr)\<close>; the result \<open>null\<close> is \<open>None\<close>.\<close>

definition clampIntervalToDay :: "interval \<Rightarrow> day \<Rightarrow> interval option" where
  "clampIntervalToDay iv dayStr =
     (case iv of (start, end) \<Rightarrow>
        let s = max start (dayStart dayStr);
            e = min end (dayEnd dayStr)
        in if e < s then None else Some (s, e))"

section \<open>The session merger\<close>

text \<open>
  The loop of \<open>mergeSessions\<close> over \<open>intervals[1..]\<close>, with its variables \<open>merged\<close>,
  \<open>curS\<close> and \<open>curE\<close>; the \<open>merged.push\<close> after the loop is the base case.
  \<open>gapMinutes\<close> is a rational number and the division by \<open>1000 * 60\<close> is exact.
\<close>

fun merge_loop ::
  "rat \<Rightarrow> interval list \<Rightarrow> timestamp \<Rightarrow> timestamp \<Rightarrow> interval list \<Rightarrow> interval list" where
  "merge_loop gapMinutes merged curS curE [] = merged @ [(curS, curE)]"
| "merge_loop gapMinutes merged curS curE ((s, e) # rest) =
     (let gap = of_int (s - curE) / (1000 * 60) in
      if gap > gapMinutes
      then merge_loop gapMinutes (merged @ [(curS, curE)]) s e rest
      else merge_loop gapMinutes merged curS (if e > curE then e else curE) rest)"

text \<open>
  \<open>intervals.sort((a, b) => a[0] - b[0])\<close> is a stable sort on the start alone, which
  is \<^const>\<open>sort_key\<close> with \<^const>\<open>fst\<close>. The second branch of the \<open>case\<close> is
  \<open>let [curS, curE] = intervals[0]\<close>; the first cannot be reached.
\<close>

definition mergeSessions :: "interval list \<Rightarrow> rat \<Rightarrow> interval list" where
  "mergeSessions intervals gapMinutes =
     (if intervals = [] then []
      else case sort_key fst intervals of
             [] \<Rightarrow> []
           | (curS, curE) # rest \<Rightarrow> merge_loop gapMinutes [] curS curE rest)"

text \<open>
  The reference merger, written from the words of the specification: sort by start
  ascending, ties broken by end ascending (the lexicographic order on pairs), start with
  the first interval and fold the others as above.
\<close>

definition mergeSessions_spec :: "interval list \<Rightarrow> rat \<Rightarrow> interval list" where
  "mergeSessions_spec intervals gapMinutes =
     (case sort intervals of
        [] \<Rightarrow> []
      | (curS, curE) # rest \<Rightarrow> merge_loop gapMinutes [] curS curE rest)"

text \<open>Vocabulary for the statements about the merger.\<close>

definition merge_from_sorted :: "rat \<Rightarrow> interval list \<Rightarrow> interval list" where
  "merge_from_sorted g xs =
     (case xs of [] \<Rightarrow> [] | (s, e) # rest \<Rightarrow> merge_loop g [] s e rest)"

definition valid_intervals :: "interval list \<Rightarrow> bool" where
  "valid_intervals xs = list_all (\<lambda>(s, e). s \<le> e) xs"

definition gap_between :: "interval \<Rightarrow> interval \<Rightarrow> rat" where
  "gap_between a b = of_int (fst b - snd a) / (1000 * 60)"

section \<open>Names\<close>

text \<open>
  Strings are ASCII. \<open>is_space\<close> is the ASCII part of what \<open>\s\<close> and \<open>trim\<close> treat as
  white space.
\<close>

definition is_space :: "char \<Rightarrow> bool" where
  "is_space c = (c \<in> set [CHR '' '', CHR 0x09, CHR 0x0A, CHR 0x0B, CHR 0x0C, CHR 0x0D])"

definition toLowerCase :: "string \<Rightarrow> string" where
  "toLowerCase s =
     map (\<lambda>c. if CHR ''A'' \<le> c \<and> c \<le> CHR ''Z'' then char_of (of_char c + (32::nat)) else c) s"

text \<open>\<open>s.includes(t)\<close>: \<open>t\<close> occurs in \<open>s\<close> at some position.\<close>

fun str_includes :: "string \<Rightarrow> string \<Rightarrow> bool" where
  "str_includes [] t = (t = [])"
| "str_includes (c # cs) t = (take (length t) (c # cs) = t \<or> str_includes cs t)"

text \<open>
  The regular expression \<open>\s*\(([^)]+)\)\<close> tried at the start of a string: white space,
  an opening parenthesis, at least one character other than the closing parenthesis, and
  the closing parenthesis. The result is the text after the match. \<open>replace_paren\<close> is
  \<open>replace\<close> with that expression and the empty string: the leftmost match is removed,
  later ones stay.
\<close>

definition match_paren :: "string \<Rightarrow> string option" where
  "match_paren s =
     (case dropWhile is_space s of
        [] \<Rightarrow> None
      | c # t \<Rightarrow>
          if c \<noteq> CHR ''('' then None
          else let body = takeWhile (\<lambda>c. c \<noteq> CHR '')'') t;
                   after = dropWhile (\<lambda>c. c \<noteq> CHR '')'') t
               in if body = [] \<or> after = [] then None else Some (tl after))"

fun replace_paren :: "string \<Rightarrow> string" where
  "replace_paren [] = []"
| "replace_paren (c # cs) =
     (case match_paren (c # cs) of Some rest \<Rightarrow> rest | None \<Rightarrow> c # replace_paren cs)"

definition trim :: "string \<Rightarrow> string" where
  "trim s = rev (dropWhile is_space (rev (dropWhile is_space s)))"

text \<open>\<open>normalizeName(name)\<close>; a \<open>null\<close> name is \<open>None\<close>.\<close>

definition normalizeName :: "string option \<Rightarrow> string" where
  "normalizeName name =
     (case name of
        None \<Rightarrow> ''Unregistered Device''
      | Some n \<Rightarrow> if n = [] then ''Unregistered Device'' else trim (replace_paren n))"

section \<open>The log table and its queries\<close>

text \<open>
  A row of the table \<open>logs\<close>, with the columns the queries select. \<open>FirstSeen\<close> and
  \<open>LastSeen\<close> hold the value \<open>new Date\<close> reads from the stored text; a \<open>LastSeen\<close> that
  is \<open>NULL\<close> or empty is \<open>None\<close>.
\<close>

record log_row =
  Name :: "string option"
  FirstSeen :: timestamp
  LastSeen :: "timestamp option"

definition sql_date :: "timestamp \<Rightarrow> day" where
  "sql_date t = t div 86400000"

text \<open>\<open>WHERE date(FirstSeen) = ? OR date(LastSeen) = ?\<close>, both parameters the same day.\<close>

definition on_date :: "day \<Rightarrow> log_row \<Rightarrow> bool" where
  "on_date date r =
     (sql_date (FirstSeen r) = date \<or>
      (case LastSeen r of None \<Rightarrow> False | Some l \<Rightarrow> sql_date l = date))"

text \<open>
  The two queries: \<open>ORDER BY FirstSeen\<close> in \<open>getEmployeePresence\<close> and
  \<open>ORDER BY Name, FirstSeen\<close> in \<open>getDailyReport\<close>. \<open>NULL\<close> sorts first and text is
  compared byte by byte, as the orders on \<open>option\<close> and \<open>string\<close> do. Rows with equal
  keys keep the order of the table.
\<close>

definition rows_by_FirstSeen :: "log_row list \<Rightarrow> day \<Rightarrow> log_row list" where
  "rows_by_FirstSeen logs date = sort_key FirstSeen (filter (on_date date) logs)"

definition rows_by_Name_FirstSeen :: "log_row list \<Rightarrow> day \<Rightarrow> log_row list" where
  "rows_by_Name_FirstSeen logs date =
     sort_key (\<lambda>r. (Name r, FirstSeen r)) (filter (on_date date) logs)"

text \<open>\<open>[new Date(r.FirstSeen), new Date(r.LastSeen || r.FirstSeen)]\<close>\<close>

definition row_interval :: "log_row \<Rightarrow> interval" where
  "row_interval r = (FirstSeen r, case LastSeen r of None \<Rightarrow> FirstSeen r | Some l \<Rightarrow> l)"

text \<open>
  The interval of a row under the policy the specification words for a malformed event:
  a row whose \<open>lastObservedAt\<close> precedes its \<open>observedAt\<close> counts as the single point
  \<open>observedAt\<close>.
\<close>

definition row_interval_spec :: "log_row \<Rightarrow> interval" where
  "row_interval_spec r =
     (case row_interval r of (observedAt, lastObservedAt) \<Rightarrow>
        if lastObservedAt < observedAt then (observedAt, observedAt)
        else (observedAt, lastObservedAt))"

section \<open>Presence of one employee on one day\<close>

text \<open>
  The objects of the JSON results. \<open>summary\<close> holds the keys that the result of
  \<open>getEmployeePresence\<close> (\<open>presence\<close>, with \<open>employee\<close> and \<open>date\<close>) and an entry of the
  daily report (\<open>employee_entry\<close>, with \<open>name\<close>) have in common. \<open>total_hours\<close> is
  the number that the text of \<open>toFixed(2)\<close> denotes.
\<close>

record session =
  in_time :: iso_time
  out_time :: iso_time

record summary =
  first_in :: "iso_time option"
  last_out :: "iso_time option"
  sessions :: "session list"
  total_hours :: rat

record employee_entry = summary +
  name :: string

record presence = summary +
  employee :: "string option"
  for_date :: day

text \<open>The two results of \<open>getEmployeePresence\<close>: the notice \<open>No logs found for ... on ...\<close>
  and the summary object.\<close>

datatype presence_result = NoLogsFound string day | Presence presence

text \<open>\<open>Number(x).toFixed(2)\<close>: the nearest multiple of a hundredth, the larger one on a
  tie, computed on the absolute value.\<close>

definition toFixed2 :: "rat \<Rightarrow> rat" where
  "toFixed2 x =
     (if x < 0 then - (of_int \<lfloor>- x * 100 + 1 / 2\<rfloor> / 100) else of_int \<lfloor>x * 100 + 1 / 2\<rfloor> / 100)"

definition to_sessions :: "interval list \<Rightarrow> session list" where
  "to_sessions merged =
     map (\<lambda>(s, e). \<lparr>in_time = toLocalISOString s, out_time = toLocalISOString e\<rparr>) merged"

definition totalMinutes :: "interval list \<Rightarrow> rat" where
  "totalMinutes merged = foldl (\<lambda>acc (s, e). acc + of_int (e - s) / (1000 * 60)) 0 merged"

text \<open>\<open>sessions[0]?.in_time\<close> and \<open>sessions[sessions.length - 1]?.out_time\<close>\<close>

definition first_in_time :: "session list \<Rightarrow> iso_time option" where
  "first_in_time ss = (case ss of [] \<Rightarrow> None | x # _ \<Rightarrow> Some (in_time x))"

definition last_out_time :: "session list \<Rightarrow> iso_time option" where
  "last_out_time ss = (if ss = [] then None else Some (out_time (last ss)))"

text \<open>The loop over the rows in \<open>getEmployeePresence\<close>, with its variables \<open>intervals\<close>
  and \<open>canonicalName\<close>.\<close>

fun presence_rows ::
  "string \<Rightarrow> day \<Rightarrow> log_row list \<Rightarrow> interval list \<Rightarrow> string option
     \<Rightarrow> interval list \<times> string option" where
  "presence_rows target date [] intervals canonicalName = (intervals, canonicalName)"
| "presence_rows target date (r # rows) intervals canonicalName =
     (let norm = normalizeName (Name r) in
      if \<not> str_includes (toLowerCase norm) target
      then presence_rows target date rows intervals canonicalName
      else
        let canonicalName' =
              Some (case canonicalName of
                      None \<Rightarrow> norm
                    | Some c \<Rightarrow> if c = [] then norm else c)
        in case clampIntervalToDay (row_interval r) date of
             None \<Rightarrow> presence_rows target date rows intervals canonicalName'
           | Some clamped \<Rightarrow>
               presence_rows target date rows (intervals @ [clamped]) canonicalName')"

definition getEmployeePresence :: "log_row list \<Rightarrow> string \<Rightarrow> day \<Rightarrow> rat \<Rightarrow> presence_result" where
  "getEmployeePresence logs employeeName date gapMinutes =
     (let rows = rows_by_FirstSeen logs date;
          target = toLowerCase employeeName;
          (intervals, canonicalName) = presence_rows target date rows [] None
      in if intervals = [] then NoLogsFound employeeName date
         else
           let merged = mergeSessions intervals gapMinutes;
               sessions = to_sessions merged
           in Presence
                \<lparr>first_in = first_in_time sessions,
                 last_out = last_out_time sessions,
                 sessions = sessions,
                 total_hours = toFixed2 (totalMinutes merged / 60),
                 employee = canonicalName,
                 for_date = date\<rparr>)"

text \<open>
  What the specification words for a day without qualifying events: a summary with no
  session and zero hours.
\<close>

definition is_empty_summary :: "presence_result \<Rightarrow> bool" where
  "is_empty_summary res =
     (case res of
        NoLogsFound n d \<Rightarrow> False
      | Presence p \<Rightarrow> sessions p = [] \<and> total_hours p = 0)"

text \<open>
  A result of \<open>getEmployeePresence\<close> with the key \<open>employee\<close> blanked: what is left
  is the day, the sessions, \<open>first_in\<close>, \<open>last_out\<close> and \<open>total_hours\<close>, or the notice.
\<close>

definition forget_employee :: "presence_result \<Rightarrow> presence_result" where
  "forget_employee res =
     (case res of
        NoLogsFound n d \<Rightarrow> NoLogsFound n d
      | Presence p \<Rightarrow> Presence (p\<lparr>employee := None\<rparr>))"

section \<open>The daily report\<close>

text \<open>
  A JavaScript \<open>Map\<close> from names to arrays is a list of pairs in the order of insertion,
  each key once. \<open>map_push m k v\<close> is
  \<open>if (!m.has(k)) m.set(k, []); m.get(k).push(v)\<close>.
\<close>

type_synonym 'v name_map = "(string \<times> 'v list) list"

definition map_has :: "'v name_map \<Rightarrow> string \<Rightarrow> bool" where
  "map_has m k = (map_of m k \<noteq> None)"

definition map_push :: "'v name_map \<Rightarrow> string \<Rightarrow> 'v \<Rightarrow> 'v name_map" where
  "map_push m k v =
     (let m' = (if map_has m k then m else m @ [(k, [])])
      in map (\<lambda>(k', vs). if k' = k then (k', vs @ [v]) else (k', vs)) m')"

text \<open>The loop over the rows in \<open>getDailyReport\<close> that fills \<open>byName\<close>.\<close>

fun group_rows :: "day \<Rightarrow> log_row list \<Rightarrow> interval name_map \<Rightarrow> interval name_map" where
  "group_rows date [] byName = byName"
| "group_rows date (r # rows) byName =
     (let norm = normalizeName (Name r) in
      if str_includes (toLowerCase norm) ''unknown'' \<or> str_includes (toLowerCase norm) ''anonymous''
      then group_rows date rows byName
      else case clampIntervalToDay (row_interval r) date of
             None \<Rightarrow> group_rows date rows byName
           | Some clamped \<Rightarrow> group_rows date rows (map_push byName norm clamped))"

text \<open>The rows that the loop does not skip.\<close>

definition row_kept :: "day \<Rightarrow> log_row \<Rightarrow> bool" where
  "row_kept date r =
     (\<not> (str_includes (toLowerCase (normalizeName (Name r))) ''unknown''
         \<or> str_includes (toLowerCase (normalizeName (Name r))) ''anonymous'')
      \<and> clampIntervalToDay (row_interval r) date \<noteq> None)"

text \<open>The body of the loop over \<open>byName.entries()\<close>: one entry of \<open>employees\<close>.\<close>

definition employee_of :: "rat \<Rightarrow> string \<times> interval list \<Rightarrow> employee_entry" where
  "employee_of gapMinutes entry =
     (case entry of (nm, ivals) \<Rightarrow>
        let merged = mergeSessions ivals gapMinutes;
            sessions = to_sessions merged
        in \<lparr>first_in = first_in_time sessions,
            last_out = last_out_time sessions,
            sessions = sessions,
            total_hours = toFixed2 (totalMinutes merged / 60),
            name = nm\<rparr>)"

text \<open>The array \<open>employees\<close> before it is sorted.\<close>

definition unsorted_employees :: "log_row list \<Rightarrow> day \<Rightarrow> rat \<Rightarrow> employee_entry list" where
  "unsorted_employees logs date gapMinutes =
     map (employee_of gapMinutes) (group_rows date (rows_by_Name_FirstSeen logs date) [])"

record daily_report =
  report_date :: day
  total_employees :: nat
  employees :: "employee_entry list"

text \<open>
  \<open>employees.sort((a, b) => (a.first_in || '').localeCompare(b.first_in || ''))\<close> is a
  stable sort on \<open>first_in\<close>, where \<open>null\<close> counts as the empty text, which precedes every
  other text as \<open>None\<close> precedes every \<open>Some\<close>.
\<close>

definition getDailyReport :: "log_row list \<Rightarrow> day \<Rightarrow> rat \<Rightarrow> daily_report" where
  "getDailyReport logs date gapMinutes =
     (let sorted_employees = sort_key first_in (unsorted_employees logs date gapMinutes)
      in \<lparr>report_date = date, total_employees = length sorted_employees,
          employees = sorted_employees\<rparr>)"

text \<open>
  The order the specification words for the daily report: by \<open>firstIn\<close> ascending,
  entries without \<open>firstIn\<close> after the others, ties by name ascending; and the same order
  without the rule for ties.
\<close>

definition report_order_spec :: "employee_entry \<Rightarrow> employee_entry \<Rightarrow> bool" where
  "report_order_spec a b =
     (case (first_in a, first_in b) of
        (Some x, Some y) \<Rightarrow> x < y \<or> (x = y \<and> name a \<le> name b)
      | (Some x, None) \<Rightarrow> True
      | (None, Some y) \<Rightarrow> False
      | (None, None) \<Rightarrow> name a \<le> name b)"

definition report_order_first_in :: "employee_entry \<Rightarrow> employee_entry \<Rightarrow> bool" where
  "report_order_first_in a b =
     (case (first_in a, first_in b) of
        (Some x, Some y) \<Rightarrow> x \<le> y
      | (Some x, None) \<Rightarrow> True
      | (None, Some y) \<Rightarrow> False
      | (None, None) \<Rightarrow> True)"

text \<open>The elements of a list in the order of their first occurrence, each once.\<close>

definition first_occurrences :: "'a list \<Rightarrow> 'a list" where
  "first_occurrences xs = rev (remdups (rev xs))"

section \<open>Analytics over a range of days\<close>

text \<open>
  The branch \<open>presenceAnalytics\<close> of the tool handler. A \<open>day_entry\<close> is the object
  \<open>{date, first_in, last_out, total_hours}\<close>, a \<open>range_summary\<close> the object
  \<open>{name, days_present, total_hours, days}\<close> and a \<open>range_report\<close> the object
  \<open>{startDate, endDate, employees}\<close>.
\<close>

record day_entry =
  entry_date :: day
  entry_first_in :: "iso_time option"
  entry_last_out :: "iso_time option"
  entry_total_hours :: rat

record range_summary =
  summary_name :: string
  days_present :: nat
  summary_total_hours :: rat
  days :: "day_entry list"

record range_report =
  range_start :: day
  range_end :: day
  range_employees :: "range_summary list"

text \<open>\<open>for (let d = new Date(start); d <= end; d.setDate(d.getDate() + 1))\<close>, filling
  \<open>days\<close>.\<close>

function days_loop ::
  "log_row list \<Rightarrow> rat \<Rightarrow> day \<Rightarrow> day \<Rightarrow> (day \<times> employee_entry list) list
     \<Rightarrow> (day \<times> employee_entry list) list" where
  "days_loop logs gapMinutes d end acc =
     (if d \<le> end
      then days_loop logs gapMinutes (d + 1) end
             (acc @ [(d, employees (getDailyReport logs d gapMinutes))])
      else acc)"
  by pat_completeness auto
termination
  by (relation "measure (\<lambda>(logs, gapMinutes, d, end, acc). nat (end + 1 - d))") auto

declare days_loop.simps [simp del]

text \<open>The two nested loops that fill \<open>byName\<close> from \<open>days\<close>.\<close>

fun collect_day :: "day \<Rightarrow> employee_entry list \<Rightarrow> day_entry name_map \<Rightarrow> day_entry name_map" where
  "collect_day d [] byName = byName"
| "collect_day d (e # es) byName =
     collect_day d es
       (map_push byName (name e)
          \<lparr>entry_date = d, entry_first_in = first_in e, entry_last_out = last_out e,
           entry_total_hours = total_hours e\<rparr>)"

fun collect_days ::
  "(day \<times> employee_entry list) list \<Rightarrow> day_entry name_map \<Rightarrow> day_entry name_map" where
  "collect_days [] byName = byName"
| "collect_days ((d, es) # rest) byName = collect_days rest (collect_day d es byName)"

definition summarise :: "string \<times> day_entry list \<Rightarrow> range_summary" where
  "summarise entry =
     (case entry of (nm, entries) \<Rightarrow>
        let totalHours = foldl (\<lambda>acc e. acc + entry_total_hours e) 0 entries
        in \<lparr>summary_name = nm, days_present = length entries,
            summary_total_hours = toFixed2 totalHours, days = entries\<rparr>)"

text \<open>
  The handler catches every error and answers with the text \<open>Error: ...\<close>; that answer is
  \<open>Inl\<close> with the message. The branch itself throws nowhere on the values of the model.
\<close>

definition presenceAnalytics :: "log_row list \<Rightarrow> day \<Rightarrow> day \<Rightarrow> rat \<Rightarrow> string + range_report" where
  "presenceAnalytics logs startDate endDate gapMinutes =
     (let byDay = days_loop logs gapMinutes startDate endDate [];
          byName = collect_days byDay [];
          summary = map summarise byName
      in Inr \<lparr>range_start = startDate, range_end = endDate, range_employees = summary\<rparr>)"

definition summary_names :: "string + range_report \<Rightarrow> string list" where
  "summary_names res =
     (case res of Inl msg \<Rightarrow> [] | Inr rep \<Rightarrow> map summary_name (range_employees rep))"

section \<open>Properties of clamping\<close>

lemma clamp_reversed: "e < s \<Longrightarrow> clampIntervalToDay (s, e) d = None"
  by (simp add: clampIntervalToDay_def Let_def)

lemma clamp_valid: "clampIntervalToDay iv d = Some (s, e) \<Longrightarrow> s \<le> e"
  by (auto simp: clampIntervalToDay_def Let_def split: prod.splits if_splits)

text \<open>
  C8. Clamping is idempotent: when clamping an interval to a day gives an interval,
  clamping that interval to the same day gives it back unchanged.
\<close>

theorem clamp_idempotent:
  "clampIntervalToDay iv d = Some iv' \<Longrightarrow> clampIntervalToDay iv' d = Some iv'"
  by (auto simp: clampIntervalToDay_def Let_def split: prod.splits if_splits)

text \<open>An interval that starts ten minutes before day 0 and ends ten minutes into it.\<close>

theorem clamp_idempotent_witness:
  "clampIntervalToDay (-600000, 600000) 0 = Some (0, 600000)
   \<and> clampIntervalToDay (0, 600000) 0 = Some (0, 600000)"
proof -
  have h: "clampIntervalToDay (-600000, 600000) 0 = Some (0, 600000)"
    by (simp add: clampIntervalToDay_def dayStart_def dayEnd_def)
  from clamp_idempotent [OF h] h show ?thesis by simp
qed

section \<open>Properties of the session merger\<close>

subsection \<open>The loop without its accumulator\<close>

lemma merge_loop_acc:
  "merge_loop g merged cs ce xs = merged @ merge_loop g [] cs ce xs"
proof (induction xs arbitrary: merged cs ce)
  case Nil
  show ?case by simp
next
  case (Cons x xs)
  obtain s e where x: "x = (s, e)" by (cases x)
  show ?case
    using Cons.IH [of "merged @ [(cs, ce)]" s e] Cons.IH [of "[(cs, ce)]" s e]
      Cons.IH [of merged cs "if e > ce then e else ce"]
      Cons.IH [of "[]" cs "if e > ce then e else ce"]
    by (simp add: x Let_def)
qed

lemma merge_loop_step:
  "merge_loop g [] cs ce ((s, e) # rest) =
     (if of_int (s - ce) / (1000 * 60) > g
      then (cs, ce) # merge_loop g [] s e rest
      else merge_loop g [] cs (max ce e) rest)"
  using merge_loop_acc [of g "[(cs, ce)]" s e rest]
  by (simp add: Let_def max_def)

lemma merge_loop_hd:
  "merge_loop g [] cs ce xs \<noteq> [] \<and> fst (hd (merge_loop g [] cs ce xs)) = cs"
proof (induction xs arbitrary: ce)
  case Nil
  show ?case by simp
next
  case (Cons x xs)
  obtain s e where x: "x = (s, e)" by (cases x)
  show ?case using Cons.IH by (simp add: x merge_loop_step del: merge_loop.simps)
qed

lemma mergeSessions_sorted_form:
  "mergeSessions xs g = merge_from_sorted g (sort_key fst xs)"
  by (cases xs) (auto simp: mergeSessions_def merge_from_sorted_def split: list.splits)

lemma mergeSessions_spec_form:
  "mergeSessions_spec xs g = merge_from_sorted g (sort xs)"
  by (simp add: mergeSessions_spec_def merge_from_sorted_def)

lemma mergeSessions_nonempty:
  assumes "xs \<noteq> []"
  shows "mergeSessions xs g \<noteq> []"
proof (cases "sort_key fst xs")
  case Nil
  then have "length (sort_key fst xs) = 0" by simp
  with assms show ?thesis by simp
next
  case (Cons x rest)
  obtain s e where x: "x = (s, e)" by (cases x)
  show ?thesis
    using merge_loop_hd [of g s e rest]
    by (simp add: mergeSessions_sorted_form merge_from_sorted_def Cons x)
qed

subsection \<open>Gaps, order and disjointness of the output\<close>

lemma merge_loop_gaps:
  "successively (\<lambda>a b. g < gap_between a b) (merge_loop g [] cs ce xs)"
proof (induction xs arbitrary: cs ce)
  case Nil
  show ?case by simp
next
  case (Cons x xs)
  obtain s e where x: "x = (s, e)" by (cases x)
  show ?case
    using Cons.IH merge_loop_hd [of g s e xs]
    by (simp add: x merge_loop_step successively_Cons gap_between_def del: merge_loop.simps)
qed

lemma merge_loop_starts:
  "fst ` set (merge_loop g [] cs ce xs) \<subseteq> insert cs (fst ` set xs)"
proof (induction xs arbitrary: cs ce)
  case Nil
  show ?case by simp
next
  case (Cons x xs)
  obtain s e where x: "x = (s, e)" by (cases x)
  show ?case
    using Cons.IH [of s e] Cons.IH [of cs "max ce e"]
    by (auto simp: x merge_loop_step simp del: merge_loop.simps)
qed

lemma merge_loop_sorted:
  "sorted (cs # map fst xs) \<Longrightarrow> sorted (map fst (merge_loop g [] cs ce xs))"
proof (induction xs arbitrary: cs ce)
  case Nil
  show ?case by simp
next
  case (Cons x xs)
  obtain s e where x: "x = (s, e)" by (cases x)
  from Cons.prems have s1: "sorted (s # map fst xs)" and s2: "sorted (cs # map fst xs)"
    and le: "cs \<le> s"
    by (auto simp: x)
  have lo: "\<forall>t \<in> fst ` set (merge_loop g [] s e xs). cs \<le> t"
  proof
    fix t assume "t \<in> fst ` set (merge_loop g [] s e xs)"
    with merge_loop_starts [of g s e xs] have "t = s \<or> t \<in> fst ` set xs" by blast
    with s2 le show "cs \<le> t" by auto
  qed
  show ?case
    using Cons.IH [OF s1, of e] Cons.IH [OF s2, of "max ce e"] lo
    by (simp add: x merge_loop_step del: merge_loop.simps)
qed

lemma disjoint_from_gaps:
  "sorted (map fst out) \<Longrightarrow> successively (\<lambda>a b. snd a < fst b) out \<Longrightarrow>
   sorted_wrt (\<lambda>a b. snd a < fst b) out"
proof (induction out)
  case Nil
  show ?case by simp
next
  case (Cons a out)
  show ?case
  proof (cases out)
    case Nil
    then show ?thesis by simp
  next
    case (Cons b out')
    from Cons.prems have ab: "snd a < fst b"
      and su: "successively (\<lambda>a b. snd a < fst b) out"
      and so: "sorted (map fst out)"
      by (auto simp: Cons)
    have "\<forall>c\<in>set out. fst b \<le> fst c" using so by (auto simp: Cons)
    with ab have "\<forall>c\<in>set out. snd a < fst c" by fastforce
    with Cons.IH [OF so su] show ?thesis by simp
  qed
qed

lemma gap_positive: "0 < g \<Longrightarrow> g < gap_between a b \<Longrightarrow> snd a < fst b"
  by (simp add: gap_between_def field_simps)

text \<open>
  C3. For every list of intervals and every \<open>gapMinutes > 0\<close>, the sessions that the
  merger returns are pairwise disjoint (each one ends before every later one starts),
  sorted by start ascending, and maximal: the gap between two adjacent sessions, from the
  end of the first to the start of the second, exceeds \<open>gapMinutes\<close>.
\<close>

theorem mergeSessions_disjoint_sorted_maximal:
  assumes "0 < gapMinutes"
  shows "sorted_wrt (\<lambda>a b. snd a < fst b) (mergeSessions intervals gapMinutes)
       \<and> sorted (map fst (mergeSessions intervals gapMinutes))
       \<and> successively (\<lambda>a b. gapMinutes < gap_between a b) (mergeSessions intervals gapMinutes)"
proof -
  let ?out = "mergeSessions intervals gapMinutes"
  have gaps: "successively (\<lambda>a b. gapMinutes < gap_between a b) ?out"
    by (simp add: mergeSessions_sorted_form merge_from_sorted_def merge_loop_gaps
        split: list.splits prod.splits)
  have srt: "sorted (map fst ?out)"
  proof (cases "sort_key fst intervals")
    case Nil
    then show ?thesis by (simp add: mergeSessions_sorted_form merge_from_sorted_def)
  next
    case (Cons x xs)
    obtain s e where x: "x = (s, e)" by (cases x)
    have "sorted (map fst (sort_key fst intervals))" by (rule sorted_sort_key)
    then have "sorted (s # map fst xs)" by (simp add: Cons x)
    then show ?thesis
      using merge_loop_sorted [of s xs gapMinutes e]
      by (simp add: mergeSessions_sorted_form merge_from_sorted_def Cons x)
  qed
  have "successively (\<lambda>a b. snd a < fst b) ?out"
    by (rule successively_mono [OF gaps]) (rule gap_positive [OF assms])
  with srt have "sorted_wrt (\<lambda>a b. snd a < fst b) ?out" by (rule disjoint_from_gaps)
  with srt gaps show ?thesis by simp
qed

text \<open>Observations at 09:00, 09:15, 09:40 and 12:35 with a tolerance of 30 minutes, given
  out of order.\<close>

theorem mergeSessions_disjoint_sorted_maximal_witness:
  "(0::rat) < 30
   \<and> mergeSessions
        [(34800000, 34800000), (32400000, 32400000), (45300000, 45300000), (33300000, 33300000)] 30
       = [(32400000, 34800000), (45300000, 45300000)]
   \<and> sorted_wrt (\<lambda>a b. snd a < fst b) (mergeSessions
        [(34800000, 34800000), (32400000, 32400000), (45300000, 45300000), (33300000, 33300000)] 30)
   \<and> sorted (map fst (mergeSessions
        [(34800000, 34800000), (32400000, 32400000), (45300000, 45300000), (33300000, 33300000)] 30))
   \<and> successively (\<lambda>a b. 30 < gap_between a b) (mergeSessions
        [(34800000, 34800000), (32400000, 32400000), (45300000, 45300000), (33300000, 33300000)] 30)"
proof -
  have h: "(0::rat) < 30" by simp
  have v: "mergeSessions
        [(34800000, 34800000), (32400000, 32400000), (45300000, 45300000), (33300000, 33300000)] 30
       = [(32400000, 34800000), (45300000, 45300000)]"
    by code_simp
  from mergeSessions_disjoint_sorted_maximal [OF h,
      of "[(34800000, 34800000), (32400000, 32400000), (45300000, 45300000), (33300000, 33300000)]"]
    h v
  show ?thesis by blast
qed

subsection \<open>Intervals with equal starts\<close>

text \<open>
  Every interval that reaches the merger comes out of \<^const>\<open>clampIntervalToDay\<close> and
  so starts no later than it ends (\<open>clamp_valid\<close>, and \<open>group_rows_valid\<close> and
  \<open>presence_rows_valid\<close> below). On such intervals, and with a tolerance that is not
  negative, two neighbours with the same start can be exchanged without changing what the
  loop returns.
\<close>

lemma merge_loop_swap:
  assumes "0 \<le> g" "s \<le> e1" "s \<le> e2"
  shows "merge_loop g [] cs ce ((s, e1) # (s, e2) # rest)
       = merge_loop g [] cs ce ((s, e2) # (s, e1) # rest)"
  using assms by (auto simp: merge_loop_step max_def)

lemma merge_loop_swap_head:
  assumes "0 \<le> g" "s \<le> e1" "s \<le> e2"
  shows "merge_loop g [] s e1 ((s, e2) # rest) = merge_loop g [] s e2 ((s, e1) # rest)"
  using assms by (auto simp: merge_loop_step max_def)

lemma merge_loop_insort:
  assumes "0 \<le> g" "fst x \<le> snd x"
    and "\<forall>y\<in>set ys. fst y \<le> snd y \<and> fst x \<le> fst y"
  shows "merge_loop g [] cs ce (insort x ys) = merge_loop g [] cs ce (x # ys)"
  using assms(3)
proof (induction ys arbitrary: cs ce)
  case Nil
  show ?case by simp
next
  case (Cons y ys)
  show ?case
  proof (cases "x \<le> y")
    case True
    then show ?thesis by simp
  next
    case False
    obtain s e1 where x: "x = (s, e1)" by (cases x)
    obtain t e2 where y: "y = (t, e2)" by (cases y)
    from False Cons.prems have t: "t = s" and le: "s \<le> e2"
      by (auto simp: x y less_eq_prod_def)
    from assms(2) have le1: "s \<le> e1" by (simp add: x)
    have IH: "\<And>cs ce. merge_loop g [] cs ce (insort x ys) = merge_loop g [] cs ce (x # ys)"
      using Cons.IH Cons.prems by simp
    have "merge_loop g [] cs ce (insort x (y # ys)) = merge_loop g [] cs ce (y # insort x ys)"
      using False by simp
    also have "\<dots> = merge_loop g [] cs ce (y # x # ys)"
      by (simp add: y merge_loop_step IH del: merge_loop.simps)
    also have "\<dots> = merge_loop g [] cs ce (x # y # ys)"
      unfolding x y t by (rule merge_loop_swap [OF assms(1) le le1])
    finally show ?thesis .
  qed
qed

lemma merge_loop_sort:
  assumes "0 \<le> g"
  shows "valid_intervals xs \<Longrightarrow> sorted (map fst xs) \<Longrightarrow>
         merge_loop g [] cs ce (sort xs) = merge_loop g [] cs ce xs"
proof (induction xs arbitrary: cs ce)
  case Nil
  show ?case by simp
next
  case (Cons x xs)
  obtain s e where x: "x = (s, e)" by (cases x)
  from Cons.prems have v: "valid_intervals xs" and so: "sorted (map fst xs)"
    and xv: "fst x \<le> snd x" and lo: "\<forall>y\<in>set xs. fst x \<le> fst y"
    by (auto simp: valid_intervals_def)
  have all: "\<forall>y\<in>set (sort xs). fst y \<le> snd y \<and> fst x \<le> fst y"
    using v lo by (auto simp: valid_intervals_def list_all_iff)
  have "merge_loop g [] cs ce (sort (x # xs)) = merge_loop g [] cs ce (x # sort xs)"
    using merge_loop_insort [OF assms xv all] by simp
  also have "\<dots> = merge_loop g [] cs ce (x # xs)"
    by (simp add: x merge_loop_step Cons.IH [OF v so] del: merge_loop.simps)
  finally show ?case .
qed

lemma merge_from_sorted_insort:
  assumes "0 \<le> g" "fst x \<le> snd x"
    and "\<forall>y\<in>set ys. fst y \<le> snd y \<and> fst x \<le> fst y"
  shows "merge_from_sorted g (insort x ys) = merge_from_sorted g (x # ys)"
proof (cases ys)
  case Nil
  then show ?thesis by simp
next
  case (Cons y ys')
  show ?thesis
  proof (cases "x \<le> y")
    case True
    then show ?thesis by (simp add: Cons)
  next
    case False
    obtain s e1 where x: "x = (s, e1)" by (cases x)
    obtain t e2 where y: "y = (t, e2)" by (cases y)
    from False assms(3) have t: "t = s" and le: "s \<le> e2"
      by (auto simp: Cons x y less_eq_prod_def)
    from assms(2) have le1: "s \<le> e1" by (simp add: x)
    have others: "\<forall>y\<in>set ys'. fst y \<le> snd y \<and> fst x \<le> fst y"
      using assms(3) by (simp add: Cons)
    have "merge_from_sorted g (insort x ys) = merge_loop g [] t e2 (insort x ys')"
      using False by (simp add: Cons y merge_from_sorted_def)
    also have "\<dots> = merge_loop g [] t e2 (x # ys')"
      by (rule merge_loop_insort [OF assms(1,2) others])
    also have "\<dots> = merge_loop g [] s e1 ((s, e2) # ys')"
      unfolding x t by (rule merge_loop_swap_head [OF assms(1) le le1])
    finally show ?thesis by (simp add: Cons x y t merge_from_sorted_def)
  qed
qed

lemma merge_from_sorted_sort:
  assumes "0 \<le> g" "valid_intervals xs" "sorted (map fst xs)"
  shows "merge_from_sorted g (sort xs) = merge_from_sorted g xs"
proof (cases xs)
  case Nil
  then show ?thesis by simp
next
  case (Cons x xs')
  obtain s e where x: "x = (s, e)" by (cases x)
  from assms(2,3) have v: "valid_intervals xs'" and so: "sorted (map fst xs')"
    and xv: "fst x \<le> snd x" and lo: "\<forall>y\<in>set xs'. fst x \<le> fst y"
    by (auto simp: Cons valid_intervals_def)
  have all: "\<forall>y\<in>set (sort xs'). fst y \<le> snd y \<and> fst x \<le> fst y"
    using v lo by (auto simp: valid_intervals_def list_all_iff)
  have "merge_from_sorted g (sort xs) = merge_from_sorted g (x # sort xs')"
    using merge_from_sorted_insort [OF assms(1) xv all] by (simp add: Cons)
  also have "\<dots> = merge_loop g [] s e (sort xs')"
    by (simp add: x merge_from_sorted_def)
  also have "\<dots> = merge_loop g [] s e xs'"
    by (rule merge_loop_sort [OF assms(1) v so])
  finally show ?thesis by (simp add: Cons x merge_from_sorted_def)
qed

lemma valid_intervals_mset:
  "mset xs = mset ys \<Longrightarrow> valid_intervals xs = valid_intervals ys"
  using mset_eq_setD [of xs ys] by (simp add: valid_intervals_def list_all_iff)

lemma mergeSessions_canonical:
  assumes "0 \<le> g" "valid_intervals xs"
  shows "mergeSessions xs g = merge_from_sorted g (sort xs)"
proof -
  let ?ys = "sort_key fst xs"
  have m: "mset ?ys = mset xs" by simp
  have v: "valid_intervals ?ys" using valid_intervals_mset [OF m] assms(2) by simp
  have s: "sorted (map fst ?ys)" by (rule sorted_sort_key)
  have "sort ?ys = sort xs"
    by (rule properties_for_sort) simp_all
  with merge_from_sorted_sort [OF assms(1) v s] show ?thesis
    by (simp add: mergeSessions_sorted_form)
qed

text \<open>
  C4. The merger returns what the reference merger returns, which sorts by start
  ascending with ties broken by end ascending before it folds: for every list of
  intervals that start no later than they end and every tolerance that is not negative.
\<close>

theorem mergeSessions_refines_spec:
  assumes "0 \<le> gapMinutes" "valid_intervals intervals"
  shows "mergeSessions intervals gapMinutes = mergeSessions_spec intervals gapMinutes"
  using mergeSessions_canonical [OF assms] by (simp add: mergeSessions_spec_form)

text \<open>Two intervals from 09:00, the longer one first, and a later observation.\<close>

theorem mergeSessions_refines_spec_witness:
  "(0::rat) \<le> 30
   \<and> valid_intervals [(32400000, 36000000), (32400000, 33000000), (45300000, 45300000)]
   \<and> mergeSessions [(32400000, 36000000), (32400000, 33000000), (45300000, 45300000)] 30
       = mergeSessions_spec [(32400000, 36000000), (32400000, 33000000), (45300000, 45300000)] 30
   \<and> mergeSessions [(32400000, 36000000), (32400000, 33000000), (45300000, 45300000)] 30
       = [(32400000, 36000000), (45300000, 45300000)]"
proof -
  have h: "(0::rat) \<le> 30" by simp
  have v: "valid_intervals [(32400000, 36000000), (32400000, 33000000), (45300000, 45300000)]"
    by (simp add: valid_intervals_def)
  have r: "mergeSessions [(32400000, 36000000), (32400000, 33000000), (45300000, 45300000)] 30
       = [(32400000, 36000000), (45300000, 45300000)]"
    by code_simp
  from mergeSessions_refines_spec [OF h v] h v r show ?thesis by blast
qed



section \<open>Properties of the grouping maps\<close>

lemma map_has_iff: "map_has m k \<longleftrightarrow> k \<in> fst ` set m"
  by (simp add: map_has_def map_of_eq_None_iff)

lemma map_push_keys:
  "map fst (map_push m k v) = (if k \<in> fst ` set m then map fst m else map fst m @ [k])"
  by (auto simp: map_push_def map_has_iff Let_def split: prod.splits)

lemma map_push_nonempty:
  assumes "\<forall>p\<in>set m. snd p \<noteq> []"
  shows "\<forall>p\<in>set (map_push m k v). snd p \<noteq> []"
  using assms by (auto simp: map_push_def Let_def split: if_splits)

lemma first_occurrences_Nil: "first_occurrences [] = []"
  by (simp add: first_occurrences_def)

lemma set_first_occurrences: "set (first_occurrences xs) = set xs"
  by (simp add: first_occurrences_def)

lemma first_occurrences_snoc:
  "first_occurrences (xs @ [x]) =
     (if x \<in> set xs then first_occurrences xs else first_occurrences xs @ [x])"
  by (simp add: first_occurrences_def)

lemma map_push_first_occurrences:
  assumes "map fst m = first_occurrences ks"
  shows "map fst (map_push m k v) = first_occurrences (ks @ [k])"
proof -
  have "fst ` set m = set ks"
    using assms set_first_occurrences [of ks] by (metis list.set_map)
  then show ?thesis
    using assms by (simp add: map_push_keys first_occurrences_snoc)
qed

section \<open>Properties of the daily report\<close>

lemma group_rows_nonempty:
  "\<forall>p\<in>set m. snd p \<noteq> [] \<Longrightarrow> \<forall>p\<in>set (group_rows date rows m). snd p \<noteq> []"
proof (induction rows arbitrary: m)
  case Nil
  then show ?case by simp
next
  case (Cons r rows)
  show ?case
  proof (cases "clampIntervalToDay (row_interval r) date")
    case None
    then show ?thesis using Cons.IH [OF Cons.prems] by (simp add: Let_def)
  next
    case (Some c)
    have "\<forall>p\<in>set (map_push m (normalizeName (Name r)) c). snd p \<noteq> []"
      by (rule map_push_nonempty [OF Cons.prems])
    from Cons.IH [OF this] Cons.IH [OF Cons.prems] show ?thesis
      by (simp add: Let_def Some)
  qed
qed

lemma map_push_snd:
  assumes "p \<in> set (map_push m k v)"
  shows "\<exists>vs. (vs = [] \<or> vs \<in> snd ` set m) \<and> (snd p = vs \<or> snd p = vs @ [v])"
proof -
  let ?m' = "if map_has m k then m else m @ [(k, [])]"
  from assms obtain q where q: "q \<in> set ?m'"
    and p: "p = (if fst q = k then (fst q, snd q @ [v]) else q)"
    by (auto simp: map_push_def Let_def split: prod.splits)
  from q have "snd q = [] \<or> snd q \<in> snd ` set m"
    by (auto split: if_splits)
  moreover from p have "snd p = snd q \<or> snd p = snd q @ [v]"
    by (simp split: if_splits)
  ultimately show ?thesis by blast
qed

lemma map_push_valid:
  assumes "\<forall>p\<in>set m. valid_intervals (snd p)" and "fst iv \<le> snd iv"
  shows "\<forall>p\<in>set (map_push m k iv). valid_intervals (snd p)"
proof
  fix p assume "p \<in> set (map_push m k iv)"
  from map_push_snd [OF this] obtain vs
    where vs: "vs = [] \<or> vs \<in> snd ` set m" and p: "snd p = vs \<or> snd p = vs @ [iv]"
    by blast
  from vs assms(1) have "valid_intervals vs"
    by (auto simp: valid_intervals_def)
  with p assms(2) show "valid_intervals (snd p)"
    by (auto simp: valid_intervals_def split: prod.splits)
qed

text \<open>Every list of intervals that the daily report hands to the merger is made of
  intervals that start no later than they end.\<close>

lemma group_rows_valid:
  "\<forall>p\<in>set m. valid_intervals (snd p) \<Longrightarrow>
   \<forall>p\<in>set (group_rows date rows m). valid_intervals (snd p)"
proof (induction rows arbitrary: m)
  case Nil
  then show ?case by simp
next
  case (Cons r rows)
  show ?case
  proof (cases "clampIntervalToDay (row_interval r) date")
    case None
    then show ?thesis using Cons.IH [OF Cons.prems] by (simp add: Let_def)
  next
    case (Some c)
    obtain s e where c: "c = (s, e)" by (cases c)
    from Some have "fst c \<le> snd c" unfolding c by (simp add: clamp_valid)
    with Cons.prems
    have "\<forall>p\<in>set (map_push m (normalizeName (Name r)) c). valid_intervals (snd p)"
      by (rule map_push_valid)
    from Cons.IH [OF this] Cons.IH [OF Cons.prems] show ?thesis
      by (simp add: Let_def Some)
  qed
qed

lemma group_rows_append:
  "group_rows date (xs @ ys) m = group_rows date ys (group_rows date xs m)"
  by (induction xs arbitrary: m) (auto simp: Let_def split: option.splits)

lemma group_rows_keys:
  "map fst m = first_occurrences ks \<Longrightarrow>
   map fst (group_rows date rows m)
     = first_occurrences (ks @ map (\<lambda>r. normalizeName (Name r)) (filter (row_kept date) rows))"
proof (induction rows arbitrary: m ks)
  case Nil
  then show ?case by simp
next
  case (Cons r rows)
  show ?case
  proof (cases "row_kept date r")
    case False
    then show ?thesis
      using Cons.IH [OF Cons.prems]
      by (auto simp: row_kept_def Let_def split: option.splits)
  next
    case True
    then obtain c where c: "clampIntervalToDay (row_interval r) date = Some c"
      by (auto simp: row_kept_def)
    have "map fst (map_push m (normalizeName (Name r)) c)
        = first_occurrences (ks @ [normalizeName (Name r)])"
      by (rule map_push_first_occurrences [OF Cons.prems])
    from Cons.IH [OF this] True show ?thesis
      by (simp add: row_kept_def Let_def c)
  qed
qed

lemma to_sessions_nonempty: "to_sessions merged = [] \<longleftrightarrow> merged = []"
  by (simp add: to_sessions_def)

lemma employee_of_name: "name (employee_of g p) = fst p"
  by (cases p) (simp add: employee_of_def Let_def)

lemma employee_of_has_sessions:
  assumes "snd p \<noteq> []"
  shows "sessions (employee_of g p) \<noteq> [] \<and> first_in (employee_of g p) \<noteq> None
       \<and> last_out (employee_of g p) \<noteq> None"
proof -
  obtain nm ivals where p: "p = (nm, ivals)" by (cases p)
  from assms have "to_sessions (mergeSessions ivals g) \<noteq> []"
    by (simp add: p to_sessions_nonempty mergeSessions_nonempty)
  then show ?thesis
    by (simp add: p employee_of_def Let_def first_in_time_def last_out_time_def
        split: list.splits)
qed

lemma unsorted_employees_have_sessions:
  assumes "e \<in> set (unsorted_employees logs date g)"
  shows "sessions e \<noteq> [] \<and> first_in e \<noteq> None \<and> last_out e \<noteq> None"
proof -
  let ?m = "group_rows date (rows_by_Name_FirstSeen logs date) []"
  from assms obtain p where p: "p \<in> set ?m" and e: "e = employee_of g p"
    by (auto simp: unsorted_employees_def)
  have "\<forall>p\<in>set ?m. snd p \<noteq> []"
    by (rule group_rows_nonempty) simp
  with p have "snd p \<noteq> []" by blast
  then show ?thesis unfolding e by (rule employee_of_has_sessions)
qed

lemma unsorted_employees_names:
  "map name (unsorted_employees logs date g)
     = first_occurrences
         (map (\<lambda>r. normalizeName (Name r))
            (filter (row_kept date) (rows_by_Name_FirstSeen logs date)))"
proof -
  have "map fst (group_rows date (rows_by_Name_FirstSeen logs date) [])
      = first_occurrences
          ([] @ map (\<lambda>r. normalizeName (Name r))
             (filter (row_kept date) (rows_by_Name_FirstSeen logs date)))"
    by (rule group_rows_keys) (simp add: first_occurrences_Nil)
  then show ?thesis
    by (simp add: unsorted_employees_def employee_of_name comp_def)
qed

lemma employees_set:
  "set (employees (getDailyReport logs date g)) = set (unsorted_employees logs date g)"
  by (simp add: getDailyReport_def Let_def)

text \<open>
  C10. Every entry of the daily report has at least one session, and neither its
  \<open>first_in\<close> nor its \<open>last_out\<close> is none: a name enters the report only with an
  interval that survived clamping to the day.
\<close>

theorem daily_report_entries_have_sessions:
  "\<forall>e\<in>set (employees (getDailyReport logs date gapMinutes)).
     sessions e \<noteq> [] \<and> first_in e \<noteq> None \<and> last_out e \<noteq> None"
  using unsorted_employees_have_sessions by (simp add: employees_set)

text \<open>A table with one row on day 0 and one row on the day before: the report of day 0
  has an entry, and its first entry has a session.\<close>

theorem daily_report_entries_have_sessions_witness:
  "employees (getDailyReport
      [\<lparr>Name = Some ''Amy (phone)'', FirstSeen = 32400000, LastSeen = Some 34200000\<rparr>,
       \<lparr>Name = Some ''Zed'', FirstSeen = -3600000, LastSeen = Some (-1800000)\<rparr>] 0 30) \<noteq> []
   \<and> sessions (hd (employees (getDailyReport
      [\<lparr>Name = Some ''Amy (phone)'', FirstSeen = 32400000, LastSeen = Some 34200000\<rparr>,
       \<lparr>Name = Some ''Zed'', FirstSeen = -3600000, LastSeen = Some (-1800000)\<rparr>] 0 30))) \<noteq> []
   \<and> first_in (hd (employees (getDailyReport
      [\<lparr>Name = Some ''Amy (phone)'', FirstSeen = 32400000, LastSeen = Some 34200000\<rparr>,
       \<lparr>Name = Some ''Zed'', FirstSeen = -3600000, LastSeen = Some (-1800000)\<rparr>] 0 30))) \<noteq> None
   \<and> last_out (hd (employees (getDailyReport
      [\<lparr>Name = Some ''Amy (phone)'', FirstSeen = 32400000, LastSeen = Some 34200000\<rparr>,
       \<lparr>Name = Some ''Zed'', FirstSeen = -3600000, LastSeen = Some (-1800000)\<rparr>] 0 30))) \<noteq> None"
proof -
  let ?es = "employees (getDailyReport
      [\<lparr>Name = Some ''Amy (phone)'', FirstSeen = 32400000, LastSeen = Some 34200000\<rparr>,
       \<lparr>Name = Some ''Zed'', FirstSeen = -3600000, LastSeen = Some (-1800000)\<rparr>] 0 30)"
  have ne: "?es \<noteq> []"
    by code_simp
  then have "hd ?es \<in> set ?es" by (rule hd_in_set)
  with daily_report_entries_have_sessions ne show ?thesis by blast
qed

lemma sorted_first_in_order:
  assumes "sorted (map first_in es)" and "\<forall>e\<in>set es. first_in e \<noteq> None"
  shows "sorted_wrt report_order_first_in es"
proof -
  from assms(1) have "sorted_wrt (\<lambda>a b. first_in a \<le> first_in b) es"
    by (simp add: sorted_map)
  then show ?thesis
  proof (rule sorted_wrt_mono_rel [rotated])
    fix a b assume "a \<in> set es" "b \<in> set es" "first_in a \<le> first_in b"
    with assms(2) show "report_order_first_in a b"
      by (auto simp: report_order_first_in_def split: option.splits)
  qed
qed

text \<open>
  C5, as the code has it. The daily report is sorted by \<open>first_in\<close> ascending, and no
  entry without \<open>first_in\<close> comes before one with it. Entries with equal \<open>first_in\<close>
  keep the order in which their names were first grouped, and that is the order of first
  occurrence among the rows that the loop keeps, which the query orders by the \<open>Name\<close>
  column as stored, before normalisation, and then by \<open>FirstSeen\<close>.
\<close>

theorem daily_report_order:
  "sorted_wrt report_order_first_in (employees (getDailyReport logs date gapMinutes))
   \<and> (\<forall>k. filter (\<lambda>e. first_in e = k) (employees (getDailyReport logs date gapMinutes))
          = filter (\<lambda>e. first_in e = k) (unsorted_employees logs date gapMinutes))
   \<and> map name (unsorted_employees logs date gapMinutes)
       = first_occurrences
           (map (\<lambda>r. normalizeName (Name r))
              (filter (row_kept date) (rows_by_Name_FirstSeen logs date)))"
proof -
  let ?es = "employees (getDailyReport logs date gapMinutes)"
  have s: "sorted (map first_in ?es)"
    by (simp add: getDailyReport_def Let_def sorted_sort_key)
  have "\<forall>e\<in>set ?es. first_in e \<noteq> None"
    using unsorted_employees_have_sessions by (simp add: employees_set)
  with s have "sorted_wrt report_order_first_in ?es" by (rule sorted_first_in_order)
  moreover have "\<forall>k. filter (\<lambda>e. first_in e = k) ?es
      = filter (\<lambda>e. first_in e = k) (unsorted_employees logs date gapMinutes)"
    by (simp add: getDailyReport_def Let_def sort_key_stable)
  ultimately show ?thesis using unsorted_employees_names by simp
qed

text \<open>
  Two employees first seen in the same second of day 0. The query puts the row of
  \<open>Maria (Mia) Santos\<close> before the row of \<open>Maria Cruz\<close>, the report lists
  \<open>Maria Santos\<close> before \<open>Maria Cruz\<close>, and that is not the order by \<open>firstIn\<close> and
  then by name.
\<close>

theorem daily_report_tie_counterexample:
  "map name (employees (getDailyReport
      [\<lparr>Name = Some ''Maria Cruz'', FirstSeen = 32400000, LastSeen = None\<rparr>,
       \<lparr>Name = Some ''Maria (Mia) Santos'', FirstSeen = 32400000, LastSeen = None\<rparr>] 0 30))
     = [''Maria Santos'', ''Maria Cruz'']
   \<and> map first_in (employees (getDailyReport
      [\<lparr>Name = Some ''Maria Cruz'', FirstSeen = 32400000, LastSeen = None\<rparr>,
       \<lparr>Name = Some ''Maria (Mia) Santos'', FirstSeen = 32400000, LastSeen = None\<rparr>] 0 30))
     = [Some 32400, Some 32400]
   \<and> \<not> sorted_wrt report_order_spec (employees (getDailyReport
      [\<lparr>Name = Some ''Maria Cruz'', FirstSeen = 32400000, LastSeen = None\<rparr>,
       \<lparr>Name = Some ''Maria (Mia) Santos'', FirstSeen = 32400000, LastSeen = None\<rparr>] 0 30))"
  by code_simp

section \<open>Properties of the presence of one employee\<close>

lemma presence_rows_append:
  "presence_rows t d (xs @ ys) ivs cn =
     (case presence_rows t d xs ivs cn of (ivs', cn') \<Rightarrow> presence_rows t d ys ivs' cn')"
  by (induction xs arbitrary: ivs cn) (auto simp: Let_def split: option.splits)

text \<open>So is the list of intervals that \<open>getEmployeePresence\<close> hands to the merger.\<close>

lemma presence_rows_valid:
  "valid_intervals ivs \<Longrightarrow> valid_intervals (fst (presence_rows t d rows ivs cn))"
proof (induction rows arbitrary: ivs cn)
  case Nil
  then show ?case by simp
next
  case (Cons r rows)
  show ?case
  proof (cases "clampIntervalToDay (row_interval r) d")
    case None
    then show ?thesis using Cons.IH [OF Cons.prems] by (simp add: Let_def)
  next
    case (Some c)
    obtain s e where c: "c = (s, e)" by (cases c)
    from Some have "s \<le> e" unfolding c by (rule clamp_valid)
    with Cons.prems have "valid_intervals (ivs @ [c])"
      by (simp add: valid_intervals_def c)
    from Cons.IH [OF this] Cons.IH [OF Cons.prems] show ?thesis
      by (simp add: Let_def Some)
  qed
qed

text \<open>The intervals that the loop collects do not depend on \<open>canonicalName\<close>.\<close>

lemma presence_rows_intervals:
  "fst (presence_rows t d rows ivs cn) = fst (presence_rows t d rows ivs cn')"
proof (induction rows arbitrary: ivs cn cn')
  case Nil
  show ?case by simp
next
  case (Cons r rows)
  show ?case
    using Cons.IH by (simp add: Let_def split: option.splits)
qed

text \<open>
  C7, as the code has it. When no row of the day gives the employee an interval,
  \<open>getEmployeePresence\<close> returns the notice \<open>No logs found for ... on ...\<close> with the
  name and the day it was asked for, in place of a summary with an empty list of sessions
  and zero hours; it does not fail. Merging zero intervals yields zero sessions.
\<close>

theorem no_events_gives_notice:
  assumes "fst (presence_rows (toLowerCase employeeName) date
                  (rows_by_FirstSeen logs date) [] None) = []"
  shows "getEmployeePresence logs employeeName date gapMinutes = NoLogsFound employeeName date
       \<and> mergeSessions [] gapMinutes = []"
  using assms
  by (auto simp: getEmployeePresence_def mergeSessions_def Let_def split: prod.splits)

text \<open>A table that holds a row of Zed only, asked for Amy.\<close>

theorem no_events_gives_notice_witness:
  "fst (presence_rows (toLowerCase ''Amy'') 0
      (rows_by_FirstSeen [\<lparr>Name = Some ''Zed'', FirstSeen = 32400000, LastSeen = None\<rparr>] 0)
      [] None) = []
   \<and> getEmployeePresence
        [\<lparr>Name = Some ''Zed'', FirstSeen = 32400000, LastSeen = None\<rparr>] ''Amy'' 0 30
       = NoLogsFound ''Amy'' 0
   \<and> mergeSessions [] 30 = []"
proof -
  have h: "fst (presence_rows (toLowerCase ''Amy'') 0
      (rows_by_FirstSeen [\<lparr>Name = Some ''Zed'', FirstSeen = 32400000, LastSeen = None\<rparr>] 0)
      [] None) = []"
    by code_simp
  from no_events_gives_notice [OF h, of 30] h show ?thesis by simp
qed

text \<open>The same request: no interval is collected, and the result is not a summary with
  no session and zero hours.\<close>

theorem no_events_counterexample:
  "fst (presence_rows (toLowerCase ''Amy'') 0
      (rows_by_FirstSeen [\<lparr>Name = Some ''Zed'', FirstSeen = 32400000, LastSeen = None\<rparr>] 0)
      [] None) = []
   \<and> \<not> is_empty_summary
        (getEmployeePresence
           [\<lparr>Name = Some ''Zed'', FirstSeen = 32400000, LastSeen = None\<rparr>] ''Amy'' 0 30)"
  by code_simp

subsection \<open>A table with one more row\<close>

text \<open>
  Both queries sort the rows of the day on a key and keep the order of the table among
  equal keys. A row added to the table therefore appears in the result of the query at
  one place, or not at all, and the other rows stand as they stand without it.
\<close>

lemma insort_key_split:
  "\<exists>as bs. insort_key f x zs = as @ x # bs \<and> zs = as @ bs"
proof (induction zs)
  case Nil
  show ?case by simp
next
  case (Cons z zs)
  then obtain as bs where IH: "insort_key f x zs = as @ x # bs" "zs = as @ bs" by blast
  show ?case
  proof (cases "f x \<le> f z")
    case True
    then have "insort_key f x (z # zs) = [] @ x # (z # zs) \<and> z # zs = [] @ (z # zs)" by simp
    then show ?thesis by blast
  next
    case False
    with IH have "insort_key f x (z # zs) = (z # as) @ x # bs \<and> z # zs = (z # as) @ bs"
      by simp
    then show ?thesis by blast
  qed
qed

lemma insort_key_beside:
  "sorted (map f (as @ r # bs)) \<Longrightarrow>
   \<exists>as' bs'. insort_key f x (as @ r # bs) = as' @ r # bs'
      \<and> insort_key f x (as @ bs) = as' @ bs'"
proof (induction as)
  case Nil
  show ?case
  proof (cases "f x \<le> f r")
    case True
    with Nil have "\<forall>y\<in>set bs. f x \<le> f y" by auto
    then have "insort_key f x bs = x # bs" by (rule insort_is_Cons)
    with True have "insort_key f x ([] @ r # bs) = [x] @ r # bs
        \<and> insort_key f x ([] @ bs) = [x] @ bs"
      by simp
    then show ?thesis by blast
  next
    case False
    then have "insort_key f x ([] @ r # bs) = [] @ r # insort_key f x bs
        \<and> insort_key f x ([] @ bs) = [] @ insort_key f x bs"
      by simp
    then show ?thesis by blast
  qed
next
  case (Cons a as)
  show ?case
  proof (cases "f x \<le> f a")
    case True
    then have "insort_key f x ((a # as) @ r # bs) = (x # a # as) @ r # bs
        \<and> insort_key f x ((a # as) @ bs) = (x # a # as) @ bs"
      by simp
    then show ?thesis by blast
  next
    case False
    from Cons.prems have "sorted (map f (as @ r # bs))" by simp
    from Cons.IH [OF this] obtain as' bs'
      where "insort_key f x (as @ r # bs) = as' @ r # bs'"
        and "insort_key f x (as @ bs) = as' @ bs'"
      by blast
    with False have "insort_key f x ((a # as) @ r # bs) = (a # as') @ r # bs'
        \<and> insort_key f x ((a # as) @ bs) = (a # as') @ bs'"
      by simp
    then show ?thesis by blast
  qed
qed

lemma sort_key_beside:
  "\<exists>as bs. sort_key f (xs @ r # ys) = as @ r # bs \<and> sort_key f (xs @ ys) = as @ bs"
proof (induction xs)
  case Nil
  from insort_key_split [of f r "sort_key f ys"] show ?case by simp
next
  case (Cons x xs)
  then obtain as bs
    where IH: "sort_key f (xs @ r # ys) = as @ r # bs" "sort_key f (xs @ ys) = as @ bs"
    by blast
  have "sorted (map f (sort_key f (xs @ r # ys)))" by (rule sorted_sort_key)
  then have "sorted (map f (as @ r # bs))" by (simp only: IH)
  from insort_key_beside [OF this, of x] IH show ?case by simp
qed

lemma sort_key_filter_beside:
  "\<exists>as bs. sort_key f (filter P (pre @ r # post)) = as @ (if P r then [r] else []) @ bs
     \<and> sort_key f (filter P (pre @ post)) = as @ bs"
proof (cases "P r")
  case True
  from sort_key_beside [of f "filter P pre" r "filter P post"]
  show ?thesis using True by simp
next
  case False
  then have "sort_key f (filter P (pre @ r # post))
        = [] @ (if P r then [r] else []) @ sort_key f (filter P (pre @ post))
      \<and> sort_key f (filter P (pre @ post)) = [] @ sort_key f (filter P (pre @ post))"
    by simp
  then show ?thesis by blast
qed

subsection \<open>A row that clamping rejects\<close>

lemma presence_rows_skip:
  assumes "clampIntervalToDay (row_interval r) date = None"
  shows "fst (presence_rows target date (as @ r # bs) ivs cn)
       = fst (presence_rows target date (as @ bs) ivs cn)"
proof -
  obtain ivs' cn' where p: "presence_rows target date as ivs cn = (ivs', cn')"
    by (cases "presence_rows target date as ivs cn")
  have "fst (presence_rows target date (r # bs) ivs' cn')
      = fst (presence_rows target date bs ivs' cn')"
    using presence_rows_intervals [of target date bs ivs' _ cn']
    by (simp add: assms Let_def)
  then show ?thesis by (simp add: presence_rows_append p)
qed

lemma group_rows_skip:
  assumes "clampIntervalToDay (row_interval r) date = None"
  shows "group_rows date (as @ r # bs) m = group_rows date (as @ bs) m"
  by (simp add: group_rows_append assms Let_def)

lemma getEmployeePresence_skip:
  assumes "clampIntervalToDay (row_interval r) date = None"
  shows "forget_employee (getEmployeePresence (pre @ r # post) employeeName date g)
       = forget_employee (getEmployeePresence (pre @ post) employeeName date g)"
proof -
  let ?t = "toLowerCase employeeName"
  obtain as bs where a: "rows_by_FirstSeen (pre @ r # post) date
        = as @ (if on_date date r then [r] else []) @ bs"
    and b: "rows_by_FirstSeen (pre @ post) date = as @ bs"
    unfolding rows_by_FirstSeen_def
    using sort_key_filter_beside [of FirstSeen "on_date date" pre r post] by blast
  have "fst (presence_rows ?t date (rows_by_FirstSeen (pre @ r # post) date) [] None)
      = fst (presence_rows ?t date (rows_by_FirstSeen (pre @ post) date) [] None)"
    using presence_rows_skip [OF assms, of ?t as bs "[]" None] by (simp add: a b)
  then show ?thesis
    by (auto simp: getEmployeePresence_def forget_employee_def Let_def split: prod.splits)
qed

lemma getDailyReport_skip:
  assumes "clampIntervalToDay (row_interval r) date = None"
  shows "getDailyReport (pre @ r # post) date g = getDailyReport (pre @ post) date g"
proof -
  obtain as bs where a: "rows_by_Name_FirstSeen (pre @ r # post) date
        = as @ (if on_date date r then [r] else []) @ bs"
    and b: "rows_by_Name_FirstSeen (pre @ post) date = as @ bs"
    unfolding rows_by_Name_FirstSeen_def
    using sort_key_filter_beside [of "\<lambda>r. (Name r, FirstSeen r)" "on_date date" pre r post]
    by blast
  have "group_rows date (rows_by_Name_FirstSeen (pre @ r # post) date) []
      = group_rows date (rows_by_Name_FirstSeen (pre @ post) date) []"
    using group_rows_skip [OF assms, of as bs "[]"] by (simp add: a b)
  then show ?thesis
    by (simp add: getDailyReport_def unsorted_employees_def)
qed

text \<open>
  C2, as the code has it. A row whose \<open>LastSeen\<close> precedes its \<open>FirstSeen\<close> gets no
  interval: clamping it to any day gives none. So, wherever the row stands among the rows
  of the loops or in the table, the intervals collected for an employee and the groups of
  the daily report are those of the rows without it; the daily report of the table is the
  report of the table without it; and the result of \<open>getEmployeePresence\<close> is the result
  for the table without it in everything but the key \<open>employee\<close>. That key is taken from
  the first row whose name matches, before the row is clamped, and so can be the name of
  the rejected row. Nothing fails.
\<close>

theorem malformed_event_discarded:
  assumes "LastSeen r = Some l" and "l < FirstSeen r"
  shows "clampIntervalToDay (row_interval r) date = None
       \<and> fst (presence_rows target date (pre @ r # post) intervals canonicalName)
           = fst (presence_rows target date (pre @ post) intervals canonicalName)
       \<and> group_rows date (pre @ r # post) byName = group_rows date (pre @ post) byName
       \<and> forget_employee (getEmployeePresence (pre @ r # post) employeeName date gapMinutes)
           = forget_employee (getEmployeePresence (pre @ post) employeeName date gapMinutes)
       \<and> getDailyReport (pre @ r # post) date gapMinutes
           = getDailyReport (pre @ post) date gapMinutes"
proof -
  have c: "clampIntervalToDay (row_interval r) date = None"
    using assms by (simp add: row_interval_def clamp_reversed)
  show ?thesis
  proof (intro conjI)
    show "clampIntervalToDay (row_interval r) date = None" by (rule c)
    show "fst (presence_rows target date (pre @ r # post) intervals canonicalName)
        = fst (presence_rows target date (pre @ post) intervals canonicalName)"
      by (rule presence_rows_skip [OF c])
    show "group_rows date (pre @ r # post) byName = group_rows date (pre @ post) byName"
      by (rule group_rows_skip [OF c])
    show "forget_employee (getEmployeePresence (pre @ r # post) employeeName date gapMinutes)
        = forget_employee (getEmployeePresence (pre @ post) employeeName date gapMinutes)"
      by (rule getEmployeePresence_skip [OF c])
    show "getDailyReport (pre @ r # post) date gapMinutes
        = getDailyReport (pre @ post) date gapMinutes"
      by (rule getDailyReport_skip [OF c])
  qed
qed

text \<open>
  A row of Amy Zed first seen at 09:00 and last seen at 08:00, and a row of Amy Abe at
  10:00, asked for \<open>amy\<close>. The session is the one of Amy Abe with or without the first
  row; with it the result names Amy Zed, without it Amy Abe. The daily report is the same
  with and without it.
\<close>

theorem malformed_event_discarded_witness:
  "LastSeen \<lparr>Name = Some ''Amy Zed'', FirstSeen = 32400000, LastSeen = Some 28800000\<rparr>
     = Some 28800000
   \<and> (28800000::int)
       < FirstSeen \<lparr>Name = Some ''Amy Zed'', FirstSeen = 32400000, LastSeen = Some 28800000\<rparr>
   \<and> getEmployeePresence
        [\<lparr>Name = Some ''Amy Zed'', FirstSeen = 32400000, LastSeen = Some 28800000\<rparr>,
         \<lparr>Name = Some ''Amy Abe'', FirstSeen = 36000000, LastSeen = None\<rparr>] ''amy'' 0 30
       = Presence \<lparr>first_in = Some 36000, last_out = Some 36000,
           sessions = [\<lparr>in_time = 36000, out_time = 36000\<rparr>], total_hours = 0,
           employee = Some ''Amy Zed'', for_date = 0\<rparr>
   \<and> getEmployeePresence
        [\<lparr>Name = Some ''Amy Abe'', FirstSeen = 36000000, LastSeen = None\<rparr>] ''amy'' 0 30
       = Presence \<lparr>first_in = Some 36000, last_out = Some 36000,
           sessions = [\<lparr>in_time = 36000, out_time = 36000\<rparr>], total_hours = 0,
           employee = Some ''Amy Abe'', for_date = 0\<rparr>
   \<and> forget_employee (getEmployeePresence
        [\<lparr>Name = Some ''Amy Zed'', FirstSeen = 32400000, LastSeen = Some 28800000\<rparr>,
         \<lparr>Name = Some ''Amy Abe'', FirstSeen = 36000000, LastSeen = None\<rparr>] ''amy'' 0 30)
       = forget_employee (getEmployeePresence
        [\<lparr>Name = Some ''Amy Abe'', FirstSeen = 36000000, LastSeen = None\<rparr>] ''amy'' 0 30)
   \<and> getDailyReport
        [\<lparr>Name = Some ''Amy Zed'', FirstSeen = 32400000, LastSeen = Some 28800000\<rparr>,
         \<lparr>Name = Some ''Amy Abe'', FirstSeen = 36000000, LastSeen = None\<rparr>] 0 30
       = getDailyReport
        [\<lparr>Name = Some ''Amy Abe'', FirstSeen = 36000000, LastSeen = None\<rparr>] 0 30"
proof -
  let ?r = "\<lparr>Name = Some ''Amy Zed'', FirstSeen = 32400000, LastSeen = Some 28800000\<rparr>"
  let ?post = "[\<lparr>Name = Some ''Amy Abe'', FirstSeen = 36000000, LastSeen = None\<rparr>]"
  have h1: "LastSeen ?r = Some 28800000" by simp
  have h2: "(28800000::int) < FirstSeen ?r" by simp
  have v1: "getEmployeePresence (?r # ?post) ''amy'' 0 30
       = Presence \<lparr>first_in = Some 36000, last_out = Some 36000,
           sessions = [\<lparr>in_time = 36000, out_time = 36000\<rparr>], total_hours = 0,
           employee = Some ''Amy Zed'', for_date = 0\<rparr>"
    by code_simp
  have v2: "getEmployeePresence ?post ''amy'' 0 30
       = Presence \<lparr>first_in = Some 36000, last_out = Some 36000,
           sessions = [\<lparr>in_time = 36000, out_time = 36000\<rparr>], total_hours = 0,
           employee = Some ''Amy Abe'', for_date = 0\<rparr>"
    by code_simp
  note t = malformed_event_discarded [OF h1 h2, where pre = "[]" and post = ?post
      and date = 0 and employeeName = "''amy''" and gapMinutes = 30 and target = "''amy''"
      and intervals = "[]" and canonicalName = None and byName = "[]"]
  have e: "forget_employee (getEmployeePresence (?r # ?post) ''amy'' 0 30)
       = forget_employee (getEmployeePresence ?post ''amy'' 0 30)"
    using t [THEN conjunct2, THEN conjunct2, THEN conjunct2, THEN conjunct1]
    by (simp only: append_Nil)
  have d: "getDailyReport (?r # ?post) 0 30 = getDailyReport ?post 0 30"
    using t [THEN conjunct2, THEN conjunct2, THEN conjunct2, THEN conjunct2]
    by (simp only: append_Nil)
  show ?thesis
    by (intro conjI) (rule h1 h2 v1 v2 e d)+
qed

text \<open>
  The row of Amy first seen at 09:00 and last seen at 08:00, alone in the table. As a
  single point at 09:00 it would lie in day 0; the code gives it no interval and answers
  that there are no logs.
\<close>

theorem malformed_event_counterexample:
  "clampIntervalToDay
      (row_interval_spec \<lparr>Name = Some ''Amy'', FirstSeen = 32400000, LastSeen = Some 28800000\<rparr>) 0
     = Some (32400000, 32400000)
   \<and> clampIntervalToDay
      (row_interval \<lparr>Name = Some ''Amy'', FirstSeen = 32400000, LastSeen = Some 28800000\<rparr>) 0
     = None
   \<and> getEmployeePresence
      [\<lparr>Name = Some ''Amy'', FirstSeen = 32400000, LastSeen = Some 28800000\<rparr>] ''Amy'' 0 30
     = NoLogsFound ''Amy'' 0"
  by code_simp

section \<open>Properties of the analytics over a range\<close>

lemma collect_day_keys:
  "map fst m = first_occurrences ks \<Longrightarrow>
   map fst (collect_day d es m) = first_occurrences (ks @ map name es)"
proof (induction es arbitrary: m ks)
  case Nil
  then show ?case by simp
next
  case (Cons e es)
  let ?v = "\<lparr>entry_date = d, entry_first_in = first_in e, entry_last_out = last_out e,
             entry_total_hours = total_hours e\<rparr>"
  have "map fst (map_push m (name e) ?v) = first_occurrences (ks @ [name e])"
    by (rule map_push_first_occurrences [OF Cons.prems])
  from Cons.IH [OF this] show ?case by simp
qed

lemma collect_days_keys:
  "map fst m = first_occurrences ks \<Longrightarrow>
   map fst (collect_days byDay m)
     = first_occurrences (ks @ concat (map (\<lambda>p. map name (snd p)) byDay))"
proof (induction byDay arbitrary: m ks)
  case Nil
  then show ?case by simp
next
  case (Cons p byDay)
  obtain d es where p: "p = (d, es)" by (cases p)
  have "map fst (collect_day d es m) = first_occurrences (ks @ map name es)"
    by (rule collect_day_keys [OF Cons.prems])
  from Cons.IH [OF this] show ?case by (simp add: p)
qed

text \<open>The loop over the days visits the days from the first to the last, in order.\<close>

lemma days_loop_upto:
  "days_loop logs g d e acc
     = acc @ map (\<lambda>d. (d, employees (getDailyReport logs d g))) [d..e]"
proof (induction logs g d e acc rule: days_loop.induct)
  case (1 logs g d e acc)
  show ?case
  proof (cases "d \<le> e")
    case True
    then have "[d..e] = d # [d + 1..e]" by (rule upto_rec1)
    with True "1.IH" show ?thesis by (subst days_loop.simps) simp
  next
    case False
    then show ?thesis by (subst days_loop.simps) simp
  qed
qed

lemma summarise_name: "summary_name (summarise p) = fst p"
  by (cases p) (simp add: summarise_def Let_def)

text \<open>
  C6, as the code has it. The operation returns a result, and the summaries in it stand
  in the order in which their names first appear when the days of the range are walked
  from the first to the last and the daily report of each day from its first entry to
  its last; each name stands once.
\<close>

theorem analytics_order_of_first_appearance:
  "\<exists>rep. presenceAnalytics logs startDate endDate gapMinutes = Inr rep
     \<and> map summary_name (range_employees rep)
         = first_occurrences
             (concat (map (\<lambda>d. map name (employees (getDailyReport logs d gapMinutes)))
                [startDate..endDate]))"
proof -
  let ?byDay = "days_loop logs gapMinutes startDate endDate []"
  have "map fst (collect_days ?byDay [])
      = first_occurrences ([] @ concat (map (\<lambda>p. map name (snd p)) ?byDay))"
    by (rule collect_days_keys) (simp add: first_occurrences_Nil)
  then have "map fst (collect_days ?byDay [])
      = first_occurrences
          (concat (map (\<lambda>d. map name (employees (getDailyReport logs d gapMinutes)))
             [startDate..endDate]))"
    by (simp add: days_loop_upto comp_def)
  then show ?thesis
    by (simp add: presenceAnalytics_def Let_def summarise_name comp_def)
qed

text \<open>Zed arrives at 08:00 and Amy at 09:00 on day 0: the summary of Zed comes first.\<close>

theorem analytics_not_sorted_counterexample:
  "summary_names (presenceAnalytics
      [\<lparr>Name = Some ''Amy'', FirstSeen = 32400000, LastSeen = None\<rparr>,
       \<lparr>Name = Some ''Zed'', FirstSeen = 28800000, LastSeen = None\<rparr>] 0 0 30)
     = [''Zed'', ''Amy'']
   \<and> \<not> sorted (summary_names (presenceAnalytics
      [\<lparr>Name = Some ''Amy'', FirstSeen = 32400000, LastSeen = None\<rparr>,
       \<lparr>Name = Some ''Zed'', FirstSeen = 28800000, LastSeen = None\<rparr>] 0 0 30))"
  by code_simp

text \<open>
  C1, as the code has it. When \<open>startDate\<close> is later than \<open>endDate\<close> the loop over the
  days runs no round, and the operation returns a result whose list of employees is
  empty; it does not fail.
\<close>

theorem reversed_range_returns_empty:
  assumes "endDate < startDate"
  shows "presenceAnalytics logs startDate endDate gapMinutes
       = Inr \<lparr>range_start = startDate, range_end = endDate, range_employees = []\<rparr>"
proof -
  from assms have "days_loop logs gapMinutes startDate endDate [] = []"
    by (subst days_loop.simps) simp
  then show ?thesis by (simp add: presenceAnalytics_def)
qed

text \<open>The range from day 5 back to day 1, over a table with a row on day 3.\<close>

theorem reversed_range_returns_empty_witness:
  "(1::int) < 5
   \<and> presenceAnalytics
        [\<lparr>Name = Some ''Amy'', FirstSeen = 291600000, LastSeen = None\<rparr>] 5 1 30
       = Inr \<lparr>range_start = 5, range_end = 1, range_employees = []\<rparr>"
  using reversed_range_returns_empty
    [of 1 5 "[\<lparr>Name = Some ''Amy'', FirstSeen = 291600000, LastSeen = None\<rparr>]" 30]
  by simp

text \<open>The same call does not end in the error answer.\<close>

theorem reversed_range_counterexample:
  "(1::int) < 5
   \<and> \<not> isl (presenceAnalytics
        [\<lparr>Name = Some ''Amy'', FirstSeen = 291600000, LastSeen = None\<rparr>] 5 1 30)
   \<and> summary_names (presenceAnalytics
        [\<lparr>Name = Some ''Amy'', FirstSeen = 291600000, LastSeen = None\<rparr>] 5 1 30) = []"
  by code_simp

end
